theory Spec2Isabelle
  imports Main "HOL-Library.Word" "HOL-Library.Sublist"
begin

section \<open>The chat front end of src/src/App.js\<close>

text \<open>
  The component \<^verbatim>\<open>ReactChatbot\<close> keeps four pieces of React state (the input buffer,
  the message list, the loading flag and the error text) and one asynchronous function,
  \<^verbatim>\<open>sendMessage\<close>, which posts the trimmed input to the backend and turns the reply
  into messages. The model below follows the source line by line: the state is a record,
  every state setter is a record update, the part of \<^verbatim>\<open>sendMessage\<close> before the
  \<^verbatim>\<open>await fetch\<close> and the part after it are two functions, and an exception is a value.
\<close>

subsection \<open>JavaScript strings\<close>

text \<open>
  A JavaScript string is a sequence of 16-bit code units. A literal of the source that
  is plain ASCII is written \<open>lit ''...''\<close>.
\<close>

type_synonym jsstring = "16 word list"

definition lit :: "string \<Rightarrow> jsstring" where
  "lit s = map (\<lambda>c. word_of_nat (of_char c)) s"

text \<open>
  \<^verbatim>\<open>String.prototype.trim\<close> removes white space and line terminators from both ends.
  ECMAScript's WhiteSpace is TAB, VT, FF, ZWNBSP and the Unicode space separators; its
  LineTerminator is LF, CR, LS, PS.
\<close>

definition WhiteSpace :: "16 word \<Rightarrow> bool" where
  "WhiteSpace c \<longleftrightarrow>
     c = 0x0009 \<or> c = 0x000B \<or> c = 0x000C \<or> c = 0xFEFF \<or>
     c = 0x0020 \<or> c = 0x00A0 \<or> c = 0x1680 \<or> (0x2000 \<le> c \<and> c \<le> 0x200A) \<or>
     c = 0x202F \<or> c = 0x205F \<or> c = 0x3000 \<or>
     c = 0x000A \<or> c = 0x000D \<or> c = 0x2028 \<or> c = 0x2029"

definition trim :: "jsstring \<Rightarrow> jsstring" where
  "trim s = rev (dropWhile WhiteSpace (rev (dropWhile WhiteSpace s)))"

text \<open>
  A template literal renders an integer-valued number in decimal: \<open>digits\<close> for a
  natural number (\<^verbatim>\<open>resp.status\<close>), \<open>decimal\<close> for an integer (\<^verbatim>\<open>Date.now()\<close>).
\<close>

definition digit :: "nat \<Rightarrow> 16 word" where
  "digit d = word_of_nat (48 + d)"

fun digits :: "nat \<Rightarrow> jsstring" where
  "digits n = (if n < 10 then [digit n] else digits (n div 10) @ [digit (n mod 10)])"

declare digits.simps [simp del]

definition decimal :: "int \<Rightarrow> jsstring" where
  "decimal i = (if i < 0 then 0x2D # digits (nat (- i)) else digits (nat i))"

subsection \<open>Decoded JSON and thrown values\<close>

text \<open>
  \<^verbatim>\<open>resp.json()\<close> yields a decoded JSON value. The program never computes with a number,
  it only hands it to \<^verbatim>\<open>String\<close> or \<^verbatim>\<open>JSON.stringify\<close>, so the type of numbers \<open>'n\<close>
  is left open. An object is the list of its own properties in enumeration order (the
  keys of a decoded object are distinct).
\<close>

datatype 'n json =
    JNull
  | JBool bool
  | JNum 'n
  | JStr jsstring
  | JArr "'n json list"
  | JObj "(jsstring \<times> 'n json) list"

text \<open>
  A thrown value, as the \<^verbatim>\<open>catch\<close> block of \<^verbatim>\<open>sendMessage\<close> sees it through
  \<^verbatim>\<open>err?.message\<close>: an error object with its message, or a value that has none
  (\<^verbatim>\<open>null\<close>, \<^verbatim>\<open>undefined\<close>, an object without \<^verbatim>\<open>message\<close>).
\<close>

datatype thrown = Err jsstring | NoMessage

text \<open>
  Reading a property of \<^verbatim>\<open>null\<close> throws a TypeError (the message is V8's). The five
  names the source reads (\<^verbatim>\<open>reply\<close>, \<^verbatim>\<open>messages\<close>, \<^verbatim>\<open>role\<close>, \<^verbatim>\<open>content\<close>, \<^verbatim>\<open>text\<close>) are on
  no prototype, so on a string, number, boolean or array they read as \<^verbatim>\<open>undefined\<close>
  (\<open>None\<close>), and on an object they read the own property, if any.
\<close>

definition null_read :: "string \<Rightarrow> thrown" where
  "null_read k = Err (lit ''Cannot read properties of null (reading '' @ [0x27] @ lit k @ [0x27] @ lit '')'')"

fun getp :: "'n json \<Rightarrow> string \<Rightarrow> thrown + 'n json option" where
  "getp JNull k = Inl (null_read k)"
| "getp (JObj kvs) k = Inr (map_of kvs (lit k))"
| "getp _ k = Inr None"

subsection \<open>The host: what the browser supplies\<close>

text \<open>
  The built-ins whose results the source only passes on are parameters of the model:
  \<^verbatim>\<open>JSON.stringify\<close>, the text of a number, the clock and the random source (the
  \<open>k\<close>-th message created in the session reads \<open>Date_now h k\<close> and \<open>Math_random h k\<close>,
  the latter being the text of \<^verbatim>\<open>Math.random().toString(36)\<close>), and the environment
  variable \<^verbatim>\<open>REACT_APP_API_URL\<close>.
\<close>

record 'n host =
  JSON_stringify :: "'n json \<Rightarrow> jsstring"
  Number_toString :: "'n \<Rightarrow> jsstring"
  Date_now :: "nat \<Rightarrow> int"
  Math_random :: "nat \<Rightarrow> jsstring"
  REACT_APP_API_URL :: "jsstring option"

text \<open>
  \<^verbatim>\<open>const API_URL = process.env.REACT_APP_API_URL || "http://localhost:8000"\<close>: an unset or
  empty variable is falsy.
\<close>

definition API_URL :: "'n host \<Rightarrow> jsstring" where
  "API_URL h =
     (case REACT_APP_API_URL h of
        None \<Rightarrow> lit ''http://localhost:8000''
      | Some u \<Rightarrow> if u = [] then lit ''http://localhost:8000'' else u)"

text \<open>
  \<^verbatim>\<open>String(v)\<close> on a decoded value. A string is itself, an array joins the texts of its
  elements with commas (\<^verbatim>\<open>null\<close> elements as the empty string), an object is
  \<^verbatim>\<open>[object Object]\<close>: that is \<open>to_text\<close>. The conversion of an object calls its
  \<^verbatim>\<open>toString\<close>; when the object has a property of its own with that name (which, in a
  decoded value, is never a function) no primitive value is found and a TypeError is
  thrown (the message is V8's): \<open>converts v\<close> says that this happens nowhere in \<open>v\<close>.
\<close>

fun join :: "jsstring \<Rightarrow> jsstring list \<Rightarrow> jsstring" where
  "join sep [] = []"
| "join sep [x] = x"
| "join sep (x # y # ys) = x @ sep @ join sep (y # ys)"

fun to_text :: "'n host \<Rightarrow> 'n json \<Rightarrow> jsstring" where
  "to_text h JNull = lit ''null''"
| "to_text h (JBool b) = (if b then lit ''true'' else lit ''false'')"
| "to_text h (JNum n) = Number_toString h n"
| "to_text h (JStr s) = s"
| "to_text h (JArr xs) =
     join (lit '','') (map (\<lambda>x. if x = JNull then [] else to_text h x) xs)"
| "to_text h (JObj kvs) = lit ''[object Object]''"

fun converts :: "'n json \<Rightarrow> bool" where
  "converts (JArr xs) = list_all converts xs"
| "converts (JObj kvs) = (map_of kvs (lit ''toString'') = None)"
| "converts _ = True"

definition cannot_convert :: thrown where
  "cannot_convert = Err (lit ''Cannot convert object to primitive value'')"

definition String_of :: "'n host \<Rightarrow> 'n json \<Rightarrow> thrown + jsstring" where
  "String_of h v = (if converts v then Inr (to_text h v) else Inl cannot_convert)"

subsection \<open>The response normalizer (App.js, lines 62 to 74)\<close>

text \<open>
  The normalizer is the \<^verbatim>\<open>if\<close> chain that follows \<^verbatim>\<open>const data = await resp.json()\<close>.
  Its result is what it does: the calls \<^verbatim>\<open>addMessage(role, content)\<close> it makes, in
  order, and the exception that ends it, if one does. The calls made before an
  exception stay made.
\<close>

type_synonym call = "jsstring \<times> jsstring"

text \<open>\<^verbatim>\<open>v === "..."\<close> for a property value \<open>v\<close> and a string literal.\<close>

definition strict_eq :: "'n json option \<Rightarrow> string \<Rightarrow> bool" where
  "strict_eq v k = (case v of Some (JStr s) \<Rightarrow> s = lit k | _ \<Rightarrow> False)"

text \<open>
  \<^verbatim>\<open>a ?? b\<close> takes \<open>b\<close> when \<open>a\<close> is \<^verbatim>\<open>undefined\<close> or \<^verbatim>\<open>null\<close>: \<open>non_nullish a\<close> is
  the value of \<open>a\<close> when it is neither.
\<close>

definition non_nullish :: "'n json option \<Rightarrow> 'n json option" where
  "non_nullish v = (case v of None \<Rightarrow> None | Some JNull \<Rightarrow> None | Some x \<Rightarrow> Some x)"

text \<open>
  The body of the \<^verbatim>\<open>forEach\<close> callback:
  \<^verbatim>\<open>const role = msg.role === "user" ? "user" : msg.role === "system" ? "system" : "assistant";\<close>
  \<^verbatim>\<open>addMessage(role, String(msg.content ?? msg.text ?? ""));\<close>
  The result is the call of \<^verbatim>\<open>addMessage\<close> it makes, or the exception thrown before
  (\<open>with_role\<close>: when \<^verbatim>\<open>String\<close> throws, \<^verbatim>\<open>addMessage\<close> is not called).
\<close>

definition with_role :: "jsstring \<Rightarrow> thrown + jsstring \<Rightarrow> thrown + call" where
  "with_role role content = (case content of Inl e \<Rightarrow> Inl e | Inr text \<Rightarrow> Inr (role, text))"

definition entry :: "'n host \<Rightarrow> 'n json \<Rightarrow> thrown + call" where
  "entry h msg =
     (case getp msg ''role'' of
        Inl e \<Rightarrow> Inl e
      | Inr r \<Rightarrow>
          let role = (if strict_eq r ''user'' then lit ''user''
                      else if strict_eq r ''system'' then lit ''system''
                      else lit ''assistant'')
          in (case getp msg ''content'' of
                Inl e \<Rightarrow> Inl e
              | Inr c \<Rightarrow>
                  (case non_nullish c of
                     Some v \<Rightarrow> with_role role (String_of h v)
                   | None \<Rightarrow>
                       (case getp msg ''text'' of
                          Inl e \<Rightarrow> Inl e
                        | Inr t \<Rightarrow>
                            (case non_nullish t of
                               Some v \<Rightarrow> with_role role (String_of h v)
                             | None \<Rightarrow> with_role role (String_of h (JStr [])))))))"

fun forEach :: "'n host \<Rightarrow> 'n json list \<Rightarrow> call list \<times> thrown option" where
  "forEach h [] = ([], None)"
| "forEach h (msg # rest) =
     (case entry h msg of
        Inl e \<Rightarrow> ([], Some e)
      | Inr c \<Rightarrow> (case forEach h rest of (cs, e) \<Rightarrow> (c # cs, e)))"

text \<open>
  The first test, \<^verbatim>\<open>data.reply && typeof data.reply === "string"\<close>, holds for a
  truthy string, that is a non-empty one (the empty string is falsy):
  \<open>truthy_string v\<close> is that string when the test holds. \<open>as_array v\<close> is the array
  when \<^verbatim>\<open>Array.isArray(v)\<close> holds.
\<close>

definition truthy_string :: "'n json option \<Rightarrow> jsstring option" where
  "truthy_string v = (case v of Some (JStr s) \<Rightarrow> if s \<noteq> [] then Some s else None | _ \<Rightarrow> None)"

definition as_array :: "'n json option \<Rightarrow> 'n json list option" where
  "as_array v = (case v of Some (JArr xs) \<Rightarrow> Some xs | _ \<Rightarrow> None)"

definition normalizer :: "'n host \<Rightarrow> 'n json \<Rightarrow> call list \<times> thrown option" where
  "normalizer h data =
     (case getp data ''reply'' of
        Inl e \<Rightarrow> ([], Some e)
      | Inr reply \<Rightarrow>
          (case truthy_string reply of
             Some s \<Rightarrow> ([(lit ''assistant'', s)], None)
           | None \<Rightarrow>
               (case getp data ''messages'' of
                  Inl e \<Rightarrow> ([], Some e)
                | Inr ms \<Rightarrow>
                    (case as_array ms of
                       Some xs \<Rightarrow> forEach h xs
                     | None \<Rightarrow>
                         (case data of
                            JStr s \<Rightarrow> ([(lit ''assistant'', s)], None)
                          | _ \<Rightarrow> ([(lit ''assistant'', JSON_stringify h data)], None))))))"

subsection \<open>The component state and \<^verbatim>\<open>addMessage\<close>\<close>

record message =
  msg_id :: jsstring
  msg_role :: jsstring
  msg_content :: jsstring

text \<open>
  The request \<^verbatim>\<open>fetch\<close> is called with. A request that has been issued and has not
  settled yet is in \<open>inflight\<close>: that list is the model's record of the suspended calls
  of \<^verbatim>\<open>sendMessage\<close>, the other four fields are the component's \<^verbatim>\<open>useState\<close> cells.
\<close>

record request =
  req_url :: jsstring
  req_method :: jsstring
  req_headers :: "(jsstring \<times> jsstring) list"
  req_body :: jsstring

record state =
  input :: jsstring
  messages :: "message list"
  loading :: bool
  error :: "jsstring option"
  inflight :: "request list"

text \<open>
  \<^verbatim>\<open>.slice(2, 8)\<close> on the text of the random number, and the two identifier templates:
  \<^verbatim>\<open>`m-${Date.now()}`\<close> for the welcome message, and
  \<^verbatim>\<open>`m-${Date.now()}-${Math.random().toString(36).slice(2, 8)}`\<close> in \<^verbatim>\<open>addMessage\<close>.
\<close>

definition slice_2_8 :: "jsstring \<Rightarrow> jsstring" where
  "slice_2_8 s = take 6 (drop 2 s)"

definition welcome_id :: "'n host \<Rightarrow> jsstring" where
  "welcome_id h = lit ''m-'' @ decimal (Date_now h 0)"

definition new_id :: "'n host \<Rightarrow> nat \<Rightarrow> jsstring" where
  "new_id h k = lit ''m-'' @ decimal (Date_now h k) @ lit ''-'' @ slice_2_8 (Math_random h k)"

definition addMessage :: "'n host \<Rightarrow> jsstring \<Rightarrow> jsstring \<Rightarrow> state \<Rightarrow> state" where
  "addMessage h role content s =
     s\<lparr>messages := messages s @
          [\<lparr>msg_id = new_id h (length (messages s)), msg_role = role, msg_content = content\<rparr>]\<rparr>"

text \<open>The state after mount: the first effect has set the welcome message.\<close>

definition init :: "'n host \<Rightarrow> state" where
  "init h =
     \<lparr>input = [],
      messages = [\<lparr>msg_id = welcome_id h, msg_role = lit ''assistant'',
                   msg_content = lit ''Write a topic for research.''\<rparr>],
      loading = False, error = None, inflight = []\<rparr>"

subsection \<open>\<^verbatim>\<open>sendMessage\<close>\<close>

text \<open>
  Up to the \<^verbatim>\<open>await\<close>: the guard \<^verbatim>\<open>if (!trimmed) return\<close>, then the four setters and
  the call of \<^verbatim>\<open>fetch\<close>, which puts the request in flight.
\<close>

definition research_request :: "'n host \<Rightarrow> jsstring \<Rightarrow> request" where
  "research_request h trimmed =
     \<lparr>req_url = API_URL h @ lit ''/research'',
      req_method = lit ''POST'',
      req_headers = [(lit ''Content-Type'', lit ''application/json'')],
      req_body = JSON_stringify h (JObj [(lit ''query'', JStr trimmed)])\<rparr>"

definition sendMessage :: "'n host \<Rightarrow> state \<Rightarrow> state" where
  "sendMessage h s =
     (let trimmed = trim (input s) in
      if trimmed = [] then s
      else
        let s1 = s\<lparr>error := None\<rparr>;
            s2 = addMessage h (lit ''user'') trimmed s1;
            s3 = s2\<lparr>input := []\<rparr>;
            s4 = s3\<lparr>loading := True\<rparr>
        in s4\<lparr>inflight := inflight s4 @ [research_request h trimmed]\<rparr>)"

text \<open>
  How a request settles is the environment's choice: \<^verbatim>\<open>fetch\<close> rejects, or it resolves
  with a response, of which the source reads the status, and then either
  \<^verbatim>\<open>resp.text()\<close> or \<^verbatim>\<open>resp.json()\<close>, each of which may reject in turn.
  \<^verbatim>\<open>resp.ok\<close> is true for the statuses 200 to 299.
\<close>

record 'n response =
  resp_status :: nat
  resp_text :: "thrown + jsstring"
  resp_json :: "thrown + 'n json"

datatype 'n outcome = Rejected thrown | Responded "'n response"

definition resp_ok :: "'n response \<Rightarrow> bool" where
  "resp_ok resp \<longleftrightarrow> 200 \<le> resp_status resp \<and> resp_status resp \<le> 299"

text \<open>
  The \<^verbatim>\<open>try\<close> block after the \<^verbatim>\<open>await fetch\<close>: the calls of \<^verbatim>\<open>addMessage\<close> it makes
  and the exception that leaves it, if any.
\<close>

definition try_block :: "'n host \<Rightarrow> 'n outcome \<Rightarrow> call list \<times> thrown option" where
  "try_block h out =
     (case out of
        Rejected e \<Rightarrow> ([], Some e)
      | Responded resp \<Rightarrow>
          if \<not> resp_ok resp then
            (case resp_text resp of
               Inl e \<Rightarrow> ([], Some e)
             | Inr text \<Rightarrow>
                 ([], Some (Err (lit ''Backend error: '' @ digits (resp_status resp)
                                   @ lit '' '' @ text))))
          else
            (case resp_json resp of
               Inl e \<Rightarrow> ([], Some e)
             | Inr data \<Rightarrow> normalizer h data))"

text \<open>\<^verbatim>\<open>err?.message ?? "Unknown error"\<close>\<close>

definition message_of :: "thrown \<Rightarrow> jsstring" where
  "message_of e = (case e of Err m \<Rightarrow> m | NoMessage \<Rightarrow> lit ''Unknown error'')"

text \<open>
  The text of the fallback message, as the source file holds it: after \<^verbatim>\<open>Sorry\<close> come
  the three characters U+00E2, U+20AC, U+201D.
\<close>

definition fallback :: jsstring where
  "fallback = lit ''Sorry '' @ [0x00E2, 0x20AC, 0x201D] @ lit '' I couldn'' @ [0x27]
                @ lit ''t get a reply from the server.''"

definition addMessages :: "'n host \<Rightarrow> call list \<Rightarrow> state \<Rightarrow> state" where
  "addMessages h calls s = foldl (\<lambda>s' (role, content). addMessage h role content s') s calls"

text \<open>
  The rest of \<^verbatim>\<open>sendMessage\<close>, run when its request settles: the \<^verbatim>\<open>try\<close> block, the
  \<^verbatim>\<open>catch\<close> block when an exception left it, and the \<^verbatim>\<open>finally\<close> block.
\<close>

definition settle :: "'n host \<Rightarrow> 'n outcome \<Rightarrow> state \<Rightarrow> state" where
  "settle h out s =
     (case try_block h out of
        (calls, exc) \<Rightarrow>
          let s1 = addMessages h calls s;
              s2 = (case exc of
                      None \<Rightarrow> s1
                    | Some err \<Rightarrow>
                        addMessage h (lit ''assistant'') fallback
                          (s1\<lparr>error := Some (message_of err)\<rparr>))
          in s2\<lparr>loading := False\<rparr>)"

subsection \<open>Events\<close>

text \<open>
  \<^verbatim>\<open>handleKeyDown\<close> calls \<^verbatim>\<open>sendMessage\<close> on Enter without Shift. The form's
  \<^verbatim>\<open>onSubmit\<close> calls it too, and the form is submitted through the Send button, which
  is \<^verbatim>\<open>disabled={loading}\<close>. \<^verbatim>\<open>onChange\<close> stores the text area's value.
  \<open>Settle i out\<close> is the \<open>i\<close>-th request in flight settling with outcome \<open>out\<close>.
\<close>

definition handleKeyDown :: "'n host \<Rightarrow> jsstring \<Rightarrow> bool \<Rightarrow> state \<Rightarrow> state" where
  "handleKeyDown h key shiftKey s =
     (if key = lit ''Enter'' \<and> \<not> shiftKey then sendMessage h s else s)"

datatype 'n event =
    Change jsstring
  | KeyDown jsstring bool
  | ClickSend
  | Settle nat "'n outcome"

fun step :: "'n host \<Rightarrow> state \<Rightarrow> 'n event \<Rightarrow> state" where
  "step h s (Change v) = s\<lparr>input := v\<rparr>"
| "step h s (KeyDown key shiftKey) = handleKeyDown h key shiftKey s"
| "step h s ClickSend = (if loading s then s else sendMessage h s)"
| "step h s (Settle i out) =
     (if i < length (inflight s)
      then settle h out (s\<lparr>inflight := take i (inflight s) @ drop (Suc i) (inflight s)\<rparr>)
      else s)"

definition run :: "'n host \<Rightarrow> 'n event list \<Rightarrow> state" where
  "run h evs = foldl (step h) (init h) evs"

subsection \<open>A host for the examples\<close>

text \<open>
  To evaluate the program on concrete inputs the examples use a host whose numbers are
  integers. Its \<^verbatim>\<open>JSON.stringify\<close> writes no white space, quotes strings with the JSON
  escapes (a lone surrogate as \<^verbatim>\<open>\uXXXX\<close>) and keeps the properties in order. Its
  clock advances by one millisecond per message; \<open>frozen_host\<close> is the same host with a
  clock that stands still, as within one \<^verbatim>\<open>forEach\<close> loop.
\<close>

definition hex_digit :: "16 word \<Rightarrow> 16 word" where
  "hex_digit d = (if d < 10 then 48 + d else 87 + d)"

definition u_escape :: "16 word \<Rightarrow> jsstring" where
  "u_escape c =
     [0x5C, 0x75, hex_digit (drop_bit 12 c), hex_digit (take_bit 4 (drop_bit 8 c)),
      hex_digit (take_bit 4 (drop_bit 4 c)), hex_digit (take_bit 4 c)]"

definition escape_unit :: "16 word \<Rightarrow> jsstring" where
  "escape_unit c =
     (if c = 0x22 then [0x5C, 0x22]
      else if c = 0x5C then [0x5C, 0x5C]
      else if c = 0x08 then [0x5C, 0x62]
      else if c = 0x0C then [0x5C, 0x66]
      else if c = 0x0A then [0x5C, 0x6E]
      else if c = 0x0D then [0x5C, 0x72]
      else if c = 0x09 then [0x5C, 0x74]
      else if c < 0x20 \<or> (0xD800 \<le> c \<and> c \<le> 0xDFFF) then u_escape c
      else [c])"

fun escape_units :: "jsstring \<Rightarrow> jsstring" where
  "escape_units [] = []"
| "escape_units [c] = escape_unit c"
| "escape_units (c # d # cs) =
     (if 0xD800 \<le> c \<and> c \<le> 0xDBFF \<and> 0xDC00 \<le> d \<and> d \<le> 0xDFFF
      then c # d # escape_units cs
      else escape_unit c @ escape_units (d # cs))"

definition quote :: "jsstring \<Rightarrow> jsstring" where
  "quote s = [0x22] @ escape_units s @ [0x22]"

fun stringify :: "int json \<Rightarrow> jsstring"
  and stringify_elements :: "int json list \<Rightarrow> jsstring list"
  and stringify_members :: "(jsstring \<times> int json) list \<Rightarrow> jsstring list" where
  "stringify JNull = lit ''null''"
| "stringify (JBool b) = (if b then lit ''true'' else lit ''false'')"
| "stringify (JNum n) = decimal n"
| "stringify (JStr s) = quote s"
| "stringify (JArr xs) = lit ''['' @ join (lit '','') (stringify_elements xs) @ lit '']''"
| "stringify (JObj kvs) = lit ''{'' @ join (lit '','') (stringify_members kvs) @ lit ''}''"
| "stringify_elements [] = []"
| "stringify_elements (x # xs) = stringify x # stringify_elements xs"
| "stringify_members [] = []"
| "stringify_members ((k, v) # kvs) = (quote k @ lit '':'' @ stringify v) # stringify_members kvs"

definition example_host :: "int host" where
  "example_host =
     \<lparr>JSON_stringify = stringify,
      Number_toString = decimal,
      Date_now = (\<lambda>k. 1700000000000 + int k),
      Math_random = (\<lambda>k. lit ''0.4fzyo82mvyr''),
      REACT_APP_API_URL = None\<rparr>"

definition frozen_host :: "int host" where
  "frozen_host = example_host\<lparr>Date_now := (\<lambda>k. 1700000000000)\<rparr>"

subsection \<open>The claims' reading of the normalizer\<close>

text \<open>
  These definitions follow the words of the specification, not the source; the theorems
  below compare the normalizer with them. \<open>field e k\<close> is the field \<open>k\<close> of an entry,
  when the entry is an object that has it. The role of an entry is \<^verbatim>\<open>user\<close> or \<^verbatim>\<open>system\<close>
  when its field \<^verbatim>\<open>role\<close> is that string, and \<^verbatim>\<open>assistant\<close> otherwise. Its content is
  the text of the value of its field \<^verbatim>\<open>content\<close>, else of its field \<^verbatim>\<open>text\<close>, else of
  the empty string, where a field is taken when it is there and is not \<^verbatim>\<open>null\<close>.
\<close>

definition field :: "'n json \<Rightarrow> string \<Rightarrow> 'n json option" where
  "field e k = (case e of JObj kvs \<Rightarrow> map_of kvs (lit k) | _ \<Rightarrow> None)"

definition entry_role :: "'n json \<Rightarrow> jsstring" where
  "entry_role e =
     (if field e ''role'' = Some (JStr (lit ''user'')) then lit ''user''
      else if field e ''role'' = Some (JStr (lit ''system'')) then lit ''system''
      else lit ''assistant'')"

definition entry_value :: "'n json \<Rightarrow> 'n json" where
  "entry_value e =
     (case non_nullish (field e ''content'') of
        Some v \<Rightarrow> v
      | None \<Rightarrow>
          (case non_nullish (field e ''text'') of
             Some v \<Rightarrow> v
           | None \<Rightarrow> JStr []))"

definition entry_content :: "'n host \<Rightarrow> 'n json \<Rightarrow> jsstring" where
  "entry_content h e = to_text h (entry_value e)"

text \<open>
  An entry that the callback handles without an exception: it is not \<^verbatim>\<open>null\<close> and the
  value of its content converts to text.
\<close>

definition plain_entry :: "'n json \<Rightarrow> bool" where
  "plain_entry e \<longleftrightarrow> e \<noteq> JNull \<and> converts (entry_value e)"

text \<open>
  The array that the second rule iterates over, when the second rule is the one that
  applies: the payload is an object, its \<^verbatim>\<open>reply\<close> is not a non-empty string, and its
  \<^verbatim>\<open>messages\<close> is an array.
\<close>

definition messages_array :: "'n json \<Rightarrow> 'n json list option" where
  "messages_array data =
     (case data of
        JObj kvs \<Rightarrow>
          (case truthy_string (map_of kvs (lit ''reply'')) of
             Some s \<Rightarrow> None
           | None \<Rightarrow> as_array (map_of kvs (lit ''messages'')))
      | _ \<Rightarrow> None)"

subsection \<open>Identifiers by position\<close>

text \<open>
  The identifier that the \<open>k\<close>-th message of a session is created with: the welcome
  message is the first, every later one comes from \<^verbatim>\<open>addMessage\<close>.
\<close>

definition id_at :: "'n host \<Rightarrow> nat \<Rightarrow> jsstring" where
  "id_at h k = (if k = 0 then welcome_id h else new_id h k)"

section \<open>Properties\<close>

subsection \<open>Basic facts about the operations\<close>

lemma trim_empty_iff: "trim s = [] \<longleftrightarrow> (\<forall>c \<in> set s. WhiteSpace c)"
proof
  assume "trim s = []"
  then have all: "\<forall>c \<in> set (dropWhile WhiteSpace s). WhiteSpace c"
    by (simp add: trim_def)
  have "dropWhile WhiteSpace s = []"
  proof (rule ccontr)
    assume ne: "dropWhile WhiteSpace s \<noteq> []"
    then have "\<not> WhiteSpace (hd (dropWhile WhiteSpace s))" by (rule hd_dropWhile)
    moreover have "hd (dropWhile WhiteSpace s) \<in> set (dropWhile WhiteSpace s)"
      using ne by simp
    ultimately show False using all by blast
  qed
  then show "\<forall>c \<in> set s. WhiteSpace c" by simp
next
  assume "\<forall>c \<in> set s. WhiteSpace c"
  then show "trim s = []" by (auto simp: trim_def dest: set_dropWhileD)
qed

lemma messages_addMessage:
  "messages (addMessage h role content s) =
     messages s @ [\<lparr>msg_id = new_id h (length (messages s)), msg_role = role, msg_content = content\<rparr>]"
  by (simp add: addMessage_def)

lemma inflight_addMessage: "inflight (addMessage h role content s) = inflight s"
  by (simp add: addMessage_def)

lemma inflight_addMessages: "inflight (addMessages h calls s) = inflight s"
  unfolding addMessages_def
  by (induction calls arbitrary: s) (auto simp: inflight_addMessage)

lemma inflight_settle: "inflight (settle h out s) = inflight s"
  by (simp add: settle_def Let_def inflight_addMessage inflight_addMessages
      split: prod.splits option.splits)

subsection \<open>Facts about the normalizer\<close>

lemma getp_not_null: "msg \<noteq> JNull \<Longrightarrow> getp msg k = Inr (field msg k)"
  by (cases msg) (simp_all add: field_def)

lemma strict_eq_iff: "strict_eq v k \<longleftrightarrow> v = Some (JStr (lit k))"
  by (auto simp: strict_eq_def split: option.splits json.splits)

lemma entry_null: "entry h JNull = Inl (null_read ''role'')"
  by (simp add: entry_def)

lemma entry_plain:
  "plain_entry msg \<Longrightarrow> entry h msg = Inr (entry_role msg, entry_content h msg)"
  by (auto simp: plain_entry_def entry_def getp_not_null strict_eq_iff entry_role_def
      entry_content_def entry_value_def with_role_def String_of_def Let_def
      split: option.splits)

lemma entry_throws:
  "entry h msg = Inl e \<Longrightarrow> e = null_read ''role'' \<or> e = cannot_convert"
proof (cases "msg = JNull")
  case True
  then show "entry h msg = Inl e \<Longrightarrow> ?thesis" by (simp add: entry_null)
next
  case False
  then show "entry h msg = Inl e \<Longrightarrow> ?thesis"
    by (auto simp: entry_def getp_not_null with_role_def String_of_def Let_def
        split: option.splits if_splits)
qed

lemma entry_role_cases:
  "entry h msg = Inr c \<Longrightarrow> fst c \<in> {lit ''user'', lit ''assistant'', lit ''system''}"
proof (cases "msg = JNull")
  case True
  then show "entry h msg = Inr c \<Longrightarrow> ?thesis" by (simp add: entry_null)
next
  case False
  then show "entry h msg = Inr c \<Longrightarrow> ?thesis"
    by (auto simp: entry_def getp_not_null with_role_def String_of_def Let_def
        split: option.splits if_splits)
qed

lemma forEach_plain:
  "list_all plain_entry xs \<Longrightarrow>
     forEach h xs = (map (\<lambda>e. (entry_role e, entry_content h e)) xs, None)"
  by (induction xs) (auto simp: entry_plain)

lemma forEach_throws:
  "forEach h xs = (cs, Some e) \<Longrightarrow> e = null_read ''role'' \<or> e = cannot_convert"
proof (induction xs arbitrary: cs)
  case Nil
  then show ?case by simp
next
  case (Cons x xs)
  show ?case
  proof (cases "entry h x")
    case (Inl e')
    with Cons.prems have "e' = e" by simp
    with Inl show ?thesis by (auto dest: entry_throws)
  next
    case (Inr c)
    with Cons.prems obtain cs' where "forEach h xs = (cs', Some e)"
      by (auto split: prod.splits)
    then show ?thesis by (rule Cons.IH)
  qed
qed

lemma forEach_roles:
  "forEach h xs = (cs, e) \<Longrightarrow>
     set (map fst cs) \<subseteq> {lit ''user'', lit ''assistant'', lit ''system''}"
proof (induction xs arbitrary: cs e)
  case Nil
  then show ?case by simp
next
  case (Cons x xs)
  show ?case
  proof (cases "entry h x")
    case (Inl e')
    with Cons.prems show ?thesis by simp
  next
    case (Inr c)
    with Cons.prems obtain cs' where
      f: "forEach h xs = (cs', e)" and cs: "cs = c # cs'"
      by (auto split: prod.splits)
    from Cons.IH [OF f] cs entry_role_cases [OF Inr] show ?thesis by simp
  qed
qed

lemma normalizer_null: "normalizer h JNull = ([], Some (null_read ''reply''))"
  by (simp add: normalizer_def)

lemma normalizer_rule2:
  "messages_array data = Some xs \<Longrightarrow> normalizer h data = forEach h xs"
  by (auto simp: messages_array_def normalizer_def split: json.splits option.splits)

lemma normalizer_single:
  "data \<noteq> JNull \<Longrightarrow> messages_array data = None \<Longrightarrow>
     \<exists>c. normalizer h data = ([(lit ''assistant'', c)], None)"
  by (cases data)
    (auto simp: messages_array_def normalizer_def truthy_string_def as_array_def
      split: option.splits json.splits)

lemma normalizer_throws:
  "normalizer h data = (cs, Some e) \<Longrightarrow>
     e = null_read ''reply'' \<or> e = null_read ''role'' \<or> e = cannot_convert"
proof (cases "data = JNull")
  case True
  then show "normalizer h data = (cs, Some e) \<Longrightarrow> ?thesis" by (simp add: normalizer_null)
next
  case False
  assume n: "normalizer h data = (cs, Some e)"
  show ?thesis
  proof (cases "messages_array data")
    case None
    with False n normalizer_single [of data h] show ?thesis by auto
  next
    case (Some xs)
    with n have "forEach h xs = (cs, Some e)" by (simp add: normalizer_rule2)
    then show ?thesis by (auto dest: forEach_throws)
  qed
qed

lemma normalizer_roles:
  "set (map fst (fst (normalizer h data))) \<subseteq> {lit ''user'', lit ''assistant'', lit ''system''}"
proof (cases "data = JNull")
  case True
  then show ?thesis by (simp add: normalizer_null)
next
  case False
  show ?thesis
  proof (cases "messages_array data")
    case None
    with False normalizer_single [of data h] show ?thesis by auto
  next
    case (Some xs)
    then have "normalizer h data = forEach h xs" by (rule normalizer_rule2)
    then show ?thesis using forEach_roles [of h xs] by (cases "forEach h xs") auto
  qed
qed

subsection \<open>Blank input\<close>

text \<open>
  C8. When the trimmed input is empty (by \<open>trim_empty_iff\<close>: when the input is empty or
  holds white space only), \<^verbatim>\<open>sendMessage\<close> returns at its guard: the whole state, that
  is the conversation, the loading flag, the error, the input buffer and the requests in
  flight, is unchanged, so nothing is appended and no request is issued.
\<close>

theorem sendMessage_blank_is_noop:
  "trim (input s) = [] \<Longrightarrow> sendMessage h s = s"
  by (simp add: sendMessage_def)

theorem sendMessage_blank_is_noop_witness:
  "trim (input ((init example_host)\<lparr>input := lit ''  ''\<rparr>)) = [] \<and>
   sendMessage example_host ((init example_host)\<lparr>input := lit ''  ''\<rparr>)
     = (init example_host)\<lparr>input := lit ''  ''\<rparr>"
proof -
  have blank: "trim (input ((init example_host)\<lparr>input := lit ''  ''\<rparr>)) = []"
    by (simp add: trim_def lit_def WhiteSpace_def)
  from sendMessage_blank_is_noop [OF blank] blank show ?thesis by simp
qed

subsection \<open>A submission\<close>

text \<open>
  C7. When the trimmed input is not empty, \<^verbatim>\<open>sendMessage\<close> appends exactly one message,
  with role \<^verbatim>\<open>user\<close> and the trimmed text as content, and puts exactly one request in
  flight: a POST to \<^verbatim>\<open>API_URL/research\<close> with the header
  \<^verbatim>\<open>Content-Type: application/json\<close> and the body \<^verbatim>\<open>JSON.stringify({ query: trimmed })\<close>.
  The settling of the request, whatever its outcome, issues no further request: there is
  no retry.
\<close>

theorem sendMessage_appends_and_posts_once:
  "trim (input s) \<noteq> [] \<Longrightarrow>
     messages (sendMessage h s) =
       messages s @ [\<lparr>msg_id = new_id h (length (messages s)), msg_role = lit ''user'',
                      msg_content = trim (input s)\<rparr>] \<and>
     inflight (sendMessage h s) =
       inflight s @ [\<lparr>req_url = API_URL h @ lit ''/research'', req_method = lit ''POST'',
                      req_headers = [(lit ''Content-Type'', lit ''application/json'')],
                      req_body = JSON_stringify h (JObj [(lit ''query'', JStr (trim (input s)))])\<rparr>] \<and>
     inflight (settle h out (sendMessage h s)) = inflight (sendMessage h s)"
  by (simp add: sendMessage_def Let_def messages_addMessage inflight_addMessage
      research_request_def inflight_settle)

theorem sendMessage_appends_and_posts_once_witness:
  "trim (lit '' hi '') = lit ''hi'' \<and>
   map msg_content (messages (sendMessage example_host ((init example_host)\<lparr>input := lit '' hi ''\<rparr>)))
     = [lit ''Write a topic for research.'', lit ''hi''] \<and>
   map req_url (inflight (sendMessage example_host ((init example_host)\<lparr>input := lit '' hi ''\<rparr>)))
     = [lit ''http://localhost:8000/research'']"
proof -
  have t: "trim (lit '' hi '') = lit ''hi''"
    by (simp add: trim_def lit_def WhiteSpace_def)
  then have ne: "trim (input ((init example_host)\<lparr>input := lit '' hi ''\<rparr>)) \<noteq> []"
    by (simp add: lit_def)
  from sendMessage_appends_and_posts_once [OF ne, of example_host] t show ?thesis
    by (simp add: init_def API_URL_def example_host_def lit_def)
qed

subsection \<open>The rule for \<^verbatim>\<open>reply\<close>\<close>

text \<open>
  C3, as stated, fails for the empty string: the first test of the normalizer is
  \<^verbatim>\<open>data.reply && typeof data.reply === "string"\<close>, and the empty string is falsy, so
  the payload \<^verbatim>\<open>{"reply": ""}\<close> falls through to the last rule and is shown as its JSON
  text instead of as one empty assistant message.
\<close>

theorem reply_empty_string_counterexample:
  "normalizer example_host (JObj [(lit ''reply'', JStr [])]) \<noteq> ([(lit ''assistant'', [])], None)"
  by code_simp

text \<open>
  C3, amended: for every payload object whose field \<^verbatim>\<open>reply\<close> is a non-empty string, the
  normalizer emits exactly one assistant message whose content is that string, and
  throws nothing.
\<close>

theorem reply_nonempty_string:
  "map_of kvs (lit ''reply'') = Some (JStr r) \<Longrightarrow> r \<noteq> [] \<Longrightarrow>
     normalizer h (JObj kvs) = ([(lit ''assistant'', r)], None)"
  by (simp add: normalizer_def truthy_string_def)

theorem reply_nonempty_string_witness:
  "map_of [(lit ''reply'', JStr (lit ''Paris is the capital.'') :: int json)] (lit ''reply'')
      = Some (JStr (lit ''Paris is the capital.'')) \<and>
   lit ''Paris is the capital.'' \<noteq> [] \<and>
   normalizer example_host (JObj [(lit ''reply'', JStr (lit ''Paris is the capital.''))])
     = ([(lit ''assistant'', lit ''Paris is the capital.'')], None)"
proof -
  have f: "map_of [(lit ''reply'', JStr (lit ''Paris is the capital.'') :: int json)] (lit ''reply'')
      = Some (JStr (lit ''Paris is the capital.''))" by simp
  have ne: "lit ''Paris is the capital.'' \<noteq> []" by (simp add: lit_def)
  from reply_nonempty_string [OF f ne, of example_host] f ne show ?thesis by blast
qed

subsection \<open>The example with a \<^verbatim>\<open>system\<close> entry\<close>

text \<open>
  C5, as stated, fails: the second entry of the payload has the role \<^verbatim>\<open>system\<close>, which
  the \<^verbatim>\<open>forEach\<close> callback keeps (\<^verbatim>\<open>msg.role === "system" ? "system" : "assistant"\<close>); it
  does not default to \<^verbatim>\<open>assistant\<close>.
\<close>

theorem system_entry_counterexample:
  "normalizer example_host
     (JObj [(lit ''messages'',
        JArr [JObj [(lit ''role'', JStr (lit ''user'')), (lit ''content'', JStr (lit ''hi''))],
              JObj [(lit ''role'', JStr (lit ''system'')), (lit ''text'', JStr (lit ''note''))]])])
   \<noteq> ([(lit ''user'', lit ''hi''), (lit ''assistant'', lit ''note'')], None)"
  by code_simp

text \<open>
  C5, amended: on that payload the normalizer yields the user message \<^verbatim>\<open>hi\<close> and then a
  message of role \<^verbatim>\<open>system\<close> whose content \<^verbatim>\<open>note\<close> comes from the field \<^verbatim>\<open>text\<close>.
\<close>

theorem system_entry_keeps_system_role:
  "normalizer h
     (JObj [(lit ''messages'',
        JArr [JObj [(lit ''role'', JStr (lit ''user'')), (lit ''content'', JStr (lit ''hi''))],
              JObj [(lit ''role'', JStr (lit ''system'')), (lit ''text'', JStr (lit ''note''))]])])
   = ([(lit ''user'', lit ''hi''), (lit ''system'', lit ''note'')], None)"
  by (simp add: normalizer_def truthy_string_def as_array_def entry_def with_role_def
      String_of_def strict_eq_def non_nullish_def lit_def)

subsection \<open>A submission while a request is pending\<close>

text \<open>
  C2. \<^verbatim>\<open>sendMessage\<close> does not read \<^verbatim>\<open>loading\<close>. The Send button is disabled while a
  request is pending, but \<^verbatim>\<open>handleKeyDown\<close> calls \<^verbatim>\<open>sendMessage\<close> all the same. In the
  session below the user sends \<^verbatim>\<open>first\<close> and, before that request settles, types
  \<^verbatim>\<open>second\<close>: the state is loading, a click on Send changes nothing, and the Enter key
  appends a second user message and puts a second request in flight.
\<close>

theorem enter_key_submits_while_loading:
  "loading (run example_host
       [Change (lit ''first''), KeyDown (lit ''Enter'') False, Change (lit ''second'')]) \<and>
   step example_host
     (run example_host
       [Change (lit ''first''), KeyDown (lit ''Enter'') False, Change (lit ''second'')])
     ClickSend
     = run example_host
       [Change (lit ''first''), KeyDown (lit ''Enter'') False, Change (lit ''second'')] \<and>
   map msg_content (messages (run example_host
       [Change (lit ''first''), KeyDown (lit ''Enter'') False, Change (lit ''second''),
        KeyDown (lit ''Enter'') False]))
     = [lit ''Write a topic for research.'', lit ''first'', lit ''second''] \<and>
   map req_body (inflight (run example_host
       [Change (lit ''first''), KeyDown (lit ''Enter'') False, Change (lit ''second''),
        KeyDown (lit ''Enter'') False]))
     = [JSON_stringify example_host (JObj [(lit ''query'', JStr (lit ''first''))]),
        JSON_stringify example_host (JObj [(lit ''query'', JStr (lit ''second''))])]"
  by (simp add: run_def handleKeyDown_def sendMessage_def Let_def init_def addMessage_def
      trim_def WhiteSpace_def lit_def research_request_def)

subsection \<open>Totality of the normalizer\<close>

text \<open>
  C1, as stated, fails twice. On the payload \<^verbatim>\<open>null\<close> the first test reads
  \<^verbatim>\<open>data.reply\<close>, which throws a TypeError (the \<^verbatim>\<open>catch\<close> block of \<^verbatim>\<open>sendMessage\<close>
  handles it). On \<^verbatim>\<open>{"messages": []}\<close> the \<^verbatim>\<open>forEach\<close> loop runs over no entry and the
  list of messages is empty.
\<close>

theorem normalizer_not_total_counterexample:
  "normalizer example_host JNull = ([], Some (null_read ''reply'')) \<and>
   normalizer example_host (JObj [(lit ''messages'', JArr [])]) = ([], None)"
  by (simp add: normalizer_def truthy_string_def as_array_def lit_def)

text \<open>
  C1, amended: for every decoded payload other than \<^verbatim>\<open>null\<close>, and provided that, when
  the second rule applies, every entry of the array is plain (it is not \<^verbatim>\<open>null\<close> and its
  content converts to text), the normalizer throws nothing and returns an ordered list
  of messages: one message per entry when the second rule applies (none for an empty
  array), exactly one message otherwise.
\<close>

theorem normalizer_returns_messages:
  "data \<noteq> JNull \<Longrightarrow> (\<forall>xs. messages_array data = Some xs \<longrightarrow> list_all plain_entry xs) \<Longrightarrow>
     snd (normalizer h data) = None \<and>
     length (fst (normalizer h data)) =
       (case messages_array data of Some xs \<Rightarrow> length xs | None \<Rightarrow> 1)"
proof (cases "messages_array data")
  case None
  assume "data \<noteq> JNull"
  with None normalizer_single [of data h] show ?thesis by auto
next
  case (Some xs)
  assume "\<forall>xs. messages_array data = Some xs \<longrightarrow> list_all plain_entry xs"
  with Some have "list_all plain_entry xs" by simp
  with Some show ?thesis by (simp add: normalizer_rule2 forEach_plain)
qed

theorem normalizer_returns_messages_witness:
  "messages_array (JObj [(lit ''foo'', JNum 1)] :: int json) = None \<and>
   snd (normalizer example_host (JObj [(lit ''foo'', JNum 1)])) = None \<and>
   length (fst (normalizer example_host (JObj [(lit ''foo'', JNum 1)]))) = 1 \<and>
   messages_array (JObj [(lit ''messages'',
       JArr [JObj [(lit ''role'', JStr (lit ''user'')), (lit ''content'', JNum 7)],
             JStr (lit ''bare'')])] :: int json)
     = Some [JObj [(lit ''role'', JStr (lit ''user'')), (lit ''content'', JNum 7)],
             JStr (lit ''bare'')] \<and>
   list_all plain_entry
     [JObj [(lit ''role'', JStr (lit ''user'')), (lit ''content'', JNum 7)],
      JStr (lit ''bare'') :: int json] \<and>
   snd (normalizer example_host (JObj [(lit ''messages'',
       JArr [JObj [(lit ''role'', JStr (lit ''user'')), (lit ''content'', JNum 7)],
             JStr (lit ''bare'')])])) = None \<and>
   length (fst (normalizer example_host (JObj [(lit ''messages'',
       JArr [JObj [(lit ''role'', JStr (lit ''user'')), (lit ''content'', JNum 7)],
             JStr (lit ''bare'')])]))) = 2"
proof -
  let ?foo = "JObj [(lit ''foo'', JNum 1)] :: int json"
  let ?xs = "[JObj [(lit ''role'', JStr (lit ''user'')), (lit ''content'', JNum 7)],
              JStr (lit ''bare'') :: int json]"
  let ?two = "JObj [(lit ''messages'', JArr ?xs)]"
  have none: "messages_array ?foo = None"
    by (simp add: messages_array_def truthy_string_def as_array_def lit_def)
  have some: "messages_array ?two = Some ?xs"
    by (simp add: messages_array_def truthy_string_def as_array_def lit_def)
  have plain: "list_all plain_entry ?xs"
    by (simp add: plain_entry_def entry_value_def field_def non_nullish_def lit_def)
  have "?foo \<noteq> JNull" and "?two \<noteq> JNull" by simp_all
  from normalizer_returns_messages [OF this(1), of example_host]
    normalizer_returns_messages [OF this(2), of example_host]
    none some plain
  show ?thesis by simp
qed

subsection \<open>The rule for \<^verbatim>\<open>messages\<close>\<close>

text \<open>
  C4, as stated, fails on an entry that is \<^verbatim>\<open>null\<close>: the callback reads \<^verbatim>\<open>msg.role\<close>,
  which throws a TypeError, so no message is emitted for that entry or for the entries
  after it.
\<close>

theorem null_entry_counterexample:
  "normalizer example_host (JObj [(lit ''messages'', JArr [JNull])])
     = ([], Some (null_read ''role''))"
  by (simp add: normalizer_def truthy_string_def as_array_def lit_def entry_null)

text \<open>
  C4, amended: for every payload object without a string field \<^verbatim>\<open>reply\<close>, with an array
  field \<^verbatim>\<open>messages\<close> whose entries are all plain (none is \<^verbatim>\<open>null\<close>, and the content of
  each converts to text), the normalizer throws nothing and emits one message per entry
  in array order. The role of an entry is \<^verbatim>\<open>user\<close> or \<^verbatim>\<open>system\<close> when its \<^verbatim>\<open>role\<close> is
  that string and \<^verbatim>\<open>assistant\<close> otherwise; its content is the text of its \<^verbatim>\<open>content\<close>,
  else of its \<^verbatim>\<open>text\<close>, else the empty string, a field being passed over when it is
  missing or \<^verbatim>\<open>null\<close>.
\<close>

theorem messages_rule:
  "(\<forall>r. map_of kvs (lit ''reply'') \<noteq> Some (JStr r)) \<Longrightarrow>
   map_of kvs (lit ''messages'') = Some (JArr xs) \<Longrightarrow> list_all plain_entry xs \<Longrightarrow>
     normalizer h (JObj kvs) = (map (\<lambda>e. (entry_role e, entry_content h e)) xs, None)"
proof -
  assume r: "\<forall>r. map_of kvs (lit ''reply'') \<noteq> Some (JStr r)"
    and m: "map_of kvs (lit ''messages'') = Some (JArr xs)" and n: "list_all plain_entry xs"
  from r have "truthy_string (map_of kvs (lit ''reply'')) = None"
    by (auto simp: truthy_string_def split: option.splits json.splits)
  with m have "messages_array (JObj kvs) = Some xs"
    by (simp add: messages_array_def as_array_def)
  with n show ?thesis by (simp add: normalizer_rule2 forEach_plain)
qed

theorem messages_rule_witness:
  "(\<forall>r. map_of [(lit ''messages'',
        JArr [JObj [(lit ''role'', JStr (lit ''admin'')), (lit ''content'', JNull),
                    (lit ''text'', JStr (lit ''note''))],
              JStr (lit ''bare'') :: int json])] (lit ''reply'') \<noteq> Some (JStr r)) \<and>
   list_all plain_entry
     [JObj [(lit ''role'', JStr (lit ''admin'')), (lit ''content'', JNull),
            (lit ''text'', JStr (lit ''note''))],
      JStr (lit ''bare'') :: int json] \<and>
   normalizer example_host
     (JObj [(lit ''messages'',
        JArr [JObj [(lit ''role'', JStr (lit ''admin'')), (lit ''content'', JNull),
                    (lit ''text'', JStr (lit ''note''))],
              JStr (lit ''bare'')])])
   = ([(lit ''assistant'', lit ''note''), (lit ''assistant'', [])], None)"
proof -
  let ?xs = "[JObj [(lit ''role'', JStr (lit ''admin'')), (lit ''content'', JNull),
                    (lit ''text'', JStr (lit ''note''))],
              JStr (lit ''bare'') :: int json]"
  have r: "\<forall>r. map_of [(lit ''messages'', JArr ?xs)] (lit ''reply'') \<noteq> Some (JStr r)"
    by (simp add: lit_def)
  have m: "map_of [(lit ''messages'', JArr ?xs)] (lit ''messages'') = Some (JArr ?xs)"
    by simp
  have n: "list_all plain_entry ?xs"
    by (simp add: plain_entry_def entry_value_def field_def non_nullish_def lit_def)
  from messages_rule [OF r m n, of example_host] r n show ?thesis
    by (simp add: entry_role_def entry_content_def entry_value_def field_def non_nullish_def
        lit_def)
qed

subsection \<open>The settling of a request\<close>

lemma addMessages_Nil: "addMessages h [] s = s"
  by (simp add: addMessages_def)

lemma addMessages_snoc:
  "addMessages h (calls @ [(role, content)]) s = addMessage h role content (addMessages h calls s)"
  by (simp add: addMessages_def)

lemma length_addMessages:
  "length (messages (addMessages h calls s)) = length (messages s) + length calls"
  by (induction calls rule: rev_induct)
    (auto simp: addMessages_Nil addMessages_snoc messages_addMessage)

lemma roles_addMessages:
  "map msg_role (messages (addMessages h calls s)) = map msg_role (messages s) @ map fst calls"
  by (induction calls rule: rev_induct)
    (auto simp: addMessages_Nil addMessages_snoc messages_addMessage)

lemma error_addMessages: "error (addMessages h calls s) = error s"
  by (induction calls rule: rev_induct)
    (auto simp: addMessages_Nil addMessages_snoc addMessage_def)

lemma messages_addMessage_error:
  "messages (addMessage h role content (s\<lparr>error := x\<rparr>)) = messages (addMessage h role content s)"
  by (simp add: addMessage_def)

lemma loading_settle: "loading (settle h out s) = False"
  by (simp add: settle_def Let_def split: prod.splits option.splits)

lemma settle_failure:
  "try_block h out = (calls, Some e) \<Longrightarrow>
     error (settle h out s) = Some (message_of e) \<and>
     messages (settle h out s) =
       messages (addMessages h calls s) @
         [\<lparr>msg_id = new_id h (length (messages s) + length calls),
           msg_role = lit ''assistant'', msg_content = fallback\<rparr>]"
  by (simp add: settle_def Let_def addMessage_def length_addMessages)

lemma settle_success:
  "try_block h out = (calls, None) \<Longrightarrow>
     error (settle h out s) = error s \<and>
     messages (settle h out s) = messages (addMessages h calls s)"
  by (simp add: settle_def Let_def error_addMessages)

lemma message_of_nonempty: "e \<noteq> Err [] \<Longrightarrow> message_of e \<noteq> []"
  by (cases e) (auto simp: message_of_def lit_def)

lemma null_read_nonempty: "message_of (null_read k) \<noteq> []"
  by (simp add: message_of_def null_read_def lit_def)

lemma cannot_convert_nonempty: "message_of cannot_convert \<noteq> []"
  by (simp add: message_of_def cannot_convert_def lit_def)

text \<open>
  C6, as stated, fails in one point: on a fault \<^verbatim>\<open>setError\<close> receives
  \<^verbatim>\<open>err?.message ?? "Unknown error"\<close>, and \<^verbatim>\<open>??\<close> keeps an empty message, so a fault
  whose message is the empty string leaves an empty error text.
\<close>

theorem empty_fault_message_counterexample:
  "error (settle example_host (Rejected (Err []))
            (run example_host [Change (lit ''hi''), KeyDown (lit ''Enter'') False]))
     = Some []"
  by (simp add: settle_def try_block_def message_of_def addMessages_def addMessage_def Let_def)

text \<open>
  C6, amended. Whatever the outcome, the settling of a request leaves \<^verbatim>\<open>loading\<close> false.
  On a response that is not ok and whose body text is read, the error is
  \<^verbatim>\<open>Backend error: \<close> followed by the status, a space and the body text, which is not
  empty, and exactly one message, the assistant's fallback, is appended. On a fault of
  the transport or of the decoding (\<^verbatim>\<open>fetch\<close>, \<^verbatim>\<open>resp.text()\<close> or \<^verbatim>\<open>resp.json()\<close> rejects)
  the error is the fault's message, or \<^verbatim>\<open>Unknown error\<close> when it has none, which is not
  empty unless the fault's message is the empty string, and again exactly the fallback
  is appended. When the normalizer throws on a decoded payload, the error is the
  TypeError's message, not empty, and the fallback is appended after the messages that
  the normalizer had emitted before.
\<close>

theorem settle_clears_loading_and_reports_failure:
  "loading (settle h out s) = False \<and>
   (\<not> resp_ok resp \<and> resp_text resp = Inr t \<longrightarrow>
      error (settle h (Responded resp) s)
        = Some (lit ''Backend error: '' @ digits (resp_status resp) @ lit '' '' @ t) \<and>
      lit ''Backend error: '' @ digits (resp_status resp) @ lit '' '' @ t \<noteq> [] \<and>
      messages (settle h (Responded resp) s) =
        messages s @ [\<lparr>msg_id = new_id h (length (messages s)),
                       msg_role = lit ''assistant'', msg_content = fallback\<rparr>]) \<and>
   (out = Rejected e \<or>
    (out = Responded resp \<and> \<not> resp_ok resp \<and> resp_text resp = Inl e) \<or>
    (out = Responded resp \<and> resp_ok resp \<and> resp_json resp = Inl e) \<longrightarrow>
      error (settle h out s) = Some (message_of e) \<and>
      (e \<noteq> Err [] \<longrightarrow> message_of e \<noteq> []) \<and>
      messages (settle h out s) =
        messages s @ [\<lparr>msg_id = new_id h (length (messages s)),
                       msg_role = lit ''assistant'', msg_content = fallback\<rparr>]) \<and>
   (resp_ok resp \<and> resp_json resp = Inr data \<and> normalizer h data = (calls, Some e') \<longrightarrow>
      error (settle h (Responded resp) s) = Some (message_of e') \<and>
      message_of e' \<noteq> [] \<and>
      messages (settle h (Responded resp) s) =
        messages (addMessages h calls s) @
          [\<lparr>msg_id = new_id h (length (messages s) + length calls),
            msg_role = lit ''assistant'', msg_content = fallback\<rparr>])"
proof (intro conjI impI)
  show "loading (settle h out s) = False" by (rule loading_settle)
next
  assume a: "\<not> resp_ok resp \<and> resp_text resp = Inr t"
  then have tb: "try_block h (Responded resp)
       = ([], Some (Err (lit ''Backend error: '' @ digits (resp_status resp) @ lit '' '' @ t)))"
    by (simp add: try_block_def)
  from settle_failure [OF tb, of s]
  show "error (settle h (Responded resp) s)
        = Some (lit ''Backend error: '' @ digits (resp_status resp) @ lit '' '' @ t)"
    and "messages (settle h (Responded resp) s) =
        messages s @ [\<lparr>msg_id = new_id h (length (messages s)),
                       msg_role = lit ''assistant'', msg_content = fallback\<rparr>]"
    by (simp_all add: message_of_def addMessages_Nil)
  show "lit ''Backend error: '' @ digits (resp_status resp) @ lit '' '' @ t \<noteq> []"
    by (simp add: lit_def)
next
  assume a: "out = Rejected e \<or>
    (out = Responded resp \<and> \<not> resp_ok resp \<and> resp_text resp = Inl e) \<or>
    (out = Responded resp \<and> resp_ok resp \<and> resp_json resp = Inl e)"
  then have tb: "try_block h out = ([], Some e)"
    by (auto simp: try_block_def)
  from settle_failure [OF tb, of s]
  show "error (settle h out s) = Some (message_of e)"
    and "messages (settle h out s) =
        messages s @ [\<lparr>msg_id = new_id h (length (messages s)),
                       msg_role = lit ''assistant'', msg_content = fallback\<rparr>]"
    by (simp_all add: addMessages_Nil)
  assume "e \<noteq> Err []"
  then show "message_of e \<noteq> []" by (rule message_of_nonempty)
next
  assume a: "resp_ok resp \<and> resp_json resp = Inr data \<and> normalizer h data = (calls, Some e')"
  then have tb: "try_block h (Responded resp) = (calls, Some e')"
    by (simp add: try_block_def)
  from settle_failure [OF tb, of s]
  show "error (settle h (Responded resp) s) = Some (message_of e')"
    and "messages (settle h (Responded resp) s) =
        messages (addMessages h calls s) @
          [\<lparr>msg_id = new_id h (length (messages s) + length calls),
            msg_role = lit ''assistant'', msg_content = fallback\<rparr>]"
    by simp_all
  from a normalizer_throws [of h data calls e']
  show "message_of e' \<noteq> []" by (auto simp: null_read_nonempty cannot_convert_nonempty)
qed


theorem settle_clears_loading_and_reports_failure_witness:
  "\<not> resp_ok \<lparr>resp_status = 500, resp_text = Inr (lit ''boom''),
               resp_json = (Inl NoMessage :: thrown + int json)\<rparr> \<and>
   loading (settle example_host
     (Responded \<lparr>resp_status = 500, resp_text = Inr (lit ''boom''), resp_json = Inl NoMessage\<rparr>)
     (run example_host [Change (lit ''hi''), KeyDown (lit ''Enter'') False])) = False \<and>
   error (settle example_host
     (Responded \<lparr>resp_status = 500, resp_text = Inr (lit ''boom''), resp_json = Inl NoMessage\<rparr>)
     (run example_host [Change (lit ''hi''), KeyDown (lit ''Enter'') False]))
     = Some (lit ''Backend error: 500 boom'') \<and>
   map msg_content (messages (settle example_host
     (Responded \<lparr>resp_status = 500, resp_text = Inr (lit ''boom''), resp_json = Inl NoMessage\<rparr>)
     (run example_host [Change (lit ''hi''), KeyDown (lit ''Enter'') False])))
     = [lit ''Write a topic for research.'', lit ''hi'', fallback] \<and>
   error (settle example_host (Rejected (Err (lit ''Failed to fetch'')))
     (run example_host [Change (lit ''hi''), KeyDown (lit ''Enter'') False]))
     = Some (lit ''Failed to fetch'') \<and>
   map msg_content (messages (settle example_host (Rejected (Err (lit ''Failed to fetch'')))
     (run example_host [Change (lit ''hi''), KeyDown (lit ''Enter'') False])))
     = [lit ''Write a topic for research.'', lit ''hi'', fallback] \<and>
   resp_ok \<lparr>resp_status = 200, resp_text = Inr [], resp_json = (Inr JNull :: thrown + int json)\<rparr> \<and>
   normalizer example_host JNull = ([], Some (null_read ''reply'')) \<and>
   error (settle example_host
     (Responded \<lparr>resp_status = 200, resp_text = Inr [], resp_json = Inr JNull\<rparr>)
     (run example_host [Change (lit ''hi''), KeyDown (lit ''Enter'') False]))
     = Some (message_of (null_read ''reply'')) \<and>
   map msg_content (messages (settle example_host
     (Responded \<lparr>resp_status = 200, resp_text = Inr [], resp_json = Inr JNull\<rparr>)
     (run example_host [Change (lit ''hi''), KeyDown (lit ''Enter'') False])))
     = [lit ''Write a topic for research.'', lit ''hi'', fallback]"
proof -
  let ?r = "\<lparr>resp_status = 500, resp_text = Inr (lit ''boom''),
             resp_json = (Inl NoMessage :: thrown + int json)\<rparr>"
  let ?s = "run example_host [Change (lit ''hi''), KeyDown (lit ''Enter'') False]"
  have bad: "\<not> resp_ok ?r" by (simp add: resp_ok_def)
  have body: "resp_text ?r = Inr (lit ''boom'')" by simp
  have d: "digits 500 = lit ''500''"
    by (simp add: digits.simps [of 500] digits.simps [of 50] digits.simps [of 5] digit_def lit_def)
  have ms: "map msg_content (messages ?s) = [lit ''Write a topic for research.'', lit ''hi'']"
    by (simp add: run_def handleKeyDown_def sendMessage_def Let_def init_def addMessage_def
        trim_def WhiteSpace_def lit_def)
  have ne: "Err (lit ''Failed to fetch'') \<noteq> Err []" by (simp add: lit_def)
  let ?n = "\<lparr>resp_status = 200, resp_text = Inr [], resp_json = (Inr JNull :: thrown + int json)\<rparr>"
  have good: "resp_ok ?n" by (simp add: resp_ok_def)
  have null: "normalizer example_host JNull = ([], Some (null_read ''reply''))"
    by (rule normalizer_null)
  have first: "error (settle example_host (Responded ?r) ?s) = Some (lit ''Backend error: 500 boom'')
      \<and> map msg_content (messages (settle example_host (Responded ?r) ?s))
          = [lit ''Write a topic for research.'', lit ''hi'', fallback]
      \<and> loading (settle example_host (Responded ?r) ?s) = False"
    using settle_clears_loading_and_reports_failure
      [of example_host "Responded ?r" ?s ?r "lit ''boom''" "Err (lit ''Failed to fetch'')"]
      bad body d ms
    by (simp add: lit_def)
  have second: "error (settle example_host (Rejected (Err (lit ''Failed to fetch''))) ?s)
        = Some (lit ''Failed to fetch'')
      \<and> map msg_content (messages (settle example_host (Rejected (Err (lit ''Failed to fetch''))) ?s))
          = [lit ''Write a topic for research.'', lit ''hi'', fallback]"
    using settle_clears_loading_and_reports_failure
      [of example_host "Rejected (Err (lit ''Failed to fetch''))" ?s ?r "lit ''boom''"
          "Err (lit ''Failed to fetch'')"]
      ms ne
    by (simp add: message_of_def)
  have third: "error (settle example_host (Responded ?n) ?s) = Some (message_of (null_read ''reply''))
      \<and> map msg_content (messages (settle example_host (Responded ?n) ?s))
          = [lit ''Write a topic for research.'', lit ''hi'', fallback]"
    using settle_clears_loading_and_reports_failure
      [of example_host "Responded ?n" ?s ?n _ _ JNull "[]" "null_read ''reply''"]
      good null ms
    by (simp add: addMessages_Nil)
  from first second third bad good null show ?thesis by blast
qed

subsection \<open>Every event appends to the conversation\<close>

lemma messages_addMessages_cong:
  "messages s = messages s' \<Longrightarrow>
     messages (addMessages h calls s) = messages (addMessages h calls s')"
  by (induction calls rule: rev_induct)
    (auto simp: addMessages_Nil addMessages_snoc messages_addMessage)

lemma prefix_addMessages: "prefix (messages s) (messages (addMessages h calls s))"
proof (induction calls rule: rev_induct)
  case Nil
  show ?case by (simp add: addMessages_Nil)
next
  case (snoc c calls)
  obtain role content where c: "c = (role, content)" by (cases c)
  from snoc show ?case
    by (simp add: c addMessages_snoc messages_addMessage prefix_def) auto
qed

lemma ids_addMessages:
  "messages s \<noteq> [] \<Longrightarrow>
   map msg_id (messages s) = map (id_at h) [0..<length (messages s)] \<Longrightarrow>
     map msg_id (messages (addMessages h calls s))
       = map (id_at h) [0..<length (messages (addMessages h calls s))]"
proof (induction calls rule: rev_induct)
  case Nil
  then show ?case by (simp add: addMessages_Nil)
next
  case (snoc c calls)
  obtain role content where c: "c = (role, content)" by (cases c)
  have pos: "0 < length (messages (addMessages h calls s))"
    using snoc.prems(1) by (simp add: length_addMessages)
  from snoc pos show ?case
    by (simp add: c addMessages_snoc messages_addMessage id_at_def)
qed

lemma sendMessage_appends:
  "\<exists>calls. set (map fst calls) \<subseteq> {lit ''user'', lit ''assistant'', lit ''system''} \<and>
     messages (sendMessage h s) = messages (addMessages h calls s)"
proof (cases "trim (input s) = []")
  case True
  then have "messages (sendMessage h s) = messages (addMessages h [] s)"
    by (simp add: sendMessage_def addMessages_Nil)
  then show ?thesis by (intro exI [of _ "[]"]) simp
next
  case False
  then have "messages (sendMessage h s)
      = messages (addMessages h [(lit ''user'', trim (input s))] s)"
    by (simp add: sendMessage_def Let_def addMessages_def addMessage_def)
  then show ?thesis by (intro exI [of _ "[(lit ''user'', trim (input s))]"]) simp
qed

lemma try_block_roles:
  "set (map fst (fst (try_block h out))) \<subseteq> {lit ''user'', lit ''assistant'', lit ''system''}"
  using normalizer_roles
  by (auto simp: try_block_def split: outcome.splits sum.splits)

lemma settle_appends:
  "\<exists>calls. set (map fst calls) \<subseteq> {lit ''user'', lit ''assistant'', lit ''system''} \<and>
     messages (settle h out s) = messages (addMessages h calls s)"
proof (cases "try_block h out")
  case (Pair calls exc)
  from try_block_roles [of h out] Pair
  have roles: "set (map fst calls) \<subseteq> {lit ''user'', lit ''assistant'', lit ''system''}"
    by simp
  show ?thesis
  proof (cases exc)
    case None
    with Pair have "messages (settle h out s) = messages (addMessages h calls s)"
      by (simp add: settle_success)
    with roles show ?thesis by blast
  next
    case (Some e)
    with Pair have "messages (settle h out s)
        = messages (addMessages h (calls @ [(lit ''assistant'', fallback)]) s)"
      by (simp add: settle_failure addMessages_snoc messages_addMessage length_addMessages)
    moreover have "set (map fst (calls @ [(lit ''assistant'', fallback)]))
        \<subseteq> {lit ''user'', lit ''assistant'', lit ''system''}"
      using roles by simp
    ultimately show ?thesis by blast
  qed
qed

lemma step_appends:
  "\<exists>calls. set (map fst calls) \<subseteq> {lit ''user'', lit ''assistant'', lit ''system''} \<and>
     messages (step h s e) = messages (addMessages h calls s)"
proof (cases e)
  case (Change v)
  then have "messages (step h s e) = messages (addMessages h [] s)"
    by (simp add: addMessages_Nil)
  then show ?thesis by (intro exI [of _ "[]"]) simp
next
  case (KeyDown key shiftKey)
  show ?thesis
  proof (cases "key = lit ''Enter'' \<and> \<not> shiftKey")
    case True
    with KeyDown show ?thesis using sendMessage_appends [of h s]
      by (simp add: handleKeyDown_def)
  next
    case False
    with KeyDown have "messages (step h s e) = messages (addMessages h [] s)"
      by (auto simp: handleKeyDown_def addMessages_Nil)
    then show ?thesis by (intro exI [of _ "[]"]) simp
  qed
next
  case ClickSend
  show ?thesis
  proof (cases "loading s")
    case True
    with ClickSend have "messages (step h s e) = messages (addMessages h [] s)"
      by (simp add: addMessages_Nil)
    then show ?thesis by (intro exI [of _ "[]"]) simp
  next
    case False
    with ClickSend show ?thesis using sendMessage_appends [of h s] by simp
  qed
next
  case (Settle i out)
  show ?thesis
  proof (cases "i < length (inflight s)")
    case True
    let ?s' = "s\<lparr>inflight := take i (inflight s) @ drop (Suc i) (inflight s)\<rparr>"
    from settle_appends [of h out ?s'] obtain calls where
      roles: "set (map fst calls) \<subseteq> {lit ''user'', lit ''assistant'', lit ''system''}" and
      m: "messages (settle h out ?s') = messages (addMessages h calls ?s')" by blast
    have "messages (addMessages h calls ?s') = messages (addMessages h calls s)"
      by (rule messages_addMessages_cong) simp
    with m True Settle have "messages (step h s e) = messages (addMessages h calls s)"
      by simp
    with roles show ?thesis by blast
  next
    case False
    with Settle have "messages (step h s e) = messages (addMessages h [] s)"
      by (simp add: addMessages_Nil)
    then show ?thesis by (intro exI [of _ "[]"]) simp
  qed
qed

lemma run_snoc: "run h (evs @ [e]) = step h (run h evs) e"
  by (simp add: run_def)

lemma run_Nil: "run h [] = init h"
  by (simp add: run_def)

lemma run_roles:
  "set (map msg_role (messages (run h evs))) \<subseteq> {lit ''user'', lit ''assistant'', lit ''system''}"
proof (induction evs rule: rev_induct)
  case Nil
  show ?case by (simp add: run_Nil init_def)
next
  case (snoc e evs)
  from step_appends [of h "run h evs" e] obtain calls where
    roles: "set (map fst calls) \<subseteq> {lit ''user'', lit ''assistant'', lit ''system''}" and
    m: "messages (step h (run h evs) e) = messages (addMessages h calls (run h evs))" by blast
  have "map msg_role (messages (run h (evs @ [e])))
      = map msg_role (messages (run h evs)) @ map fst calls"
    by (simp add: run_snoc m roles_addMessages)
  with snoc roles show ?case by simp
qed

lemma run_ids:
  "messages (run h evs) \<noteq> [] \<and>
   map msg_id (messages (run h evs)) = map (id_at h) [0..<length (messages (run h evs))]"
proof (induction evs rule: rev_induct)
  case Nil
  show ?case by (simp add: run_Nil init_def id_at_def)
next
  case (snoc e evs)
  from step_appends [of h "run h evs" e] obtain calls where
    m: "messages (step h (run h evs) e) = messages (addMessages h calls (run h evs))" by blast
  from snoc have ne: "messages (run h evs) \<noteq> []"
    and ids: "map msg_id (messages (run h evs)) = map (id_at h) [0..<length (messages (run h evs))]"
    by simp_all
  have "messages (run h (evs @ [e])) \<noteq> []"
    using ne prefix_addMessages [of "run h evs" h calls] by (auto simp: run_snoc m)
  moreover have "map msg_id (messages (run h (evs @ [e])))
      = map (id_at h) [0..<length (messages (run h (evs @ [e])))]"
    using ids_addMessages [OF ne ids, of calls] by (simp add: run_snoc m)
  ultimately show ?case by simp
qed

lemma run_prefix: "prefix (messages (run h evs)) (messages (run h (evs @ later)))"
proof (induction later rule: rev_induct)
  case Nil
  show ?case by simp
next
  case (snoc e later)
  from step_appends [of h "run h (evs @ later)" e] obtain calls where
    m: "messages (step h (run h (evs @ later)) e)
          = messages (addMessages h calls (run h (evs @ later)))" by blast
  have "prefix (messages (run h (evs @ later))) (messages (run h ((evs @ later) @ [e])))"
    unfolding run_snoc m by (rule prefix_addMessages)
  with snoc show ?case by (metis append_assoc prefix_order.order_trans)
qed

subsection \<open>Decimal texts and identifiers\<close>

lemma unat_digit: "d < 10 \<Longrightarrow> unat (digit d) = 48 + d"
proof -
  assume "d < 10"
  then have small: "48 + d < 2 ^ LENGTH(16)" by simp
  have "unat (word_of_nat (48 + d) :: 16 word) = (48 + d) mod 2 ^ LENGTH(16)"
    by (rule unat_of_nat)
  also from small have "\<dots> = 48 + d" by (rule mod_less)
  finally show ?thesis unfolding digit_def .
qed

lemma digit_inj: "a < 10 \<Longrightarrow> b < 10 \<Longrightarrow> digit a = digit b \<Longrightarrow> a = b"
proof -
  assume a: "a < 10" and b: "b < 10" and eq: "digit a = digit b"
  from eq have "unat (digit a) = unat (digit b)" by (rule arg_cong)
  then have "48 + a = 48 + b" by (simp only: unat_digit [OF a] unat_digit [OF b])
  then show ?thesis by arith
qed

lemma digit_not_dash: "d < 10 \<Longrightarrow> digit d \<noteq> 0x2D"
proof
  assume d: "d < 10" and "digit d = 0x2D"
  then have "unat (digit d) = unat (0x2D :: 16 word)" by (rule_tac arg_cong)
  then have "48 + d = unat (0x2D :: 16 word)" by (simp only: unat_digit [OF d])
  also have "\<dots> = 45" by simp
  finally show False by arith
qed

lemma digits_nonempty: "digits n \<noteq> []"
  by (subst digits.simps) simp

lemma length_digits_big: "\<not> n < 10 \<Longrightarrow> 2 \<le> length (digits n)"
  using digits_nonempty [of "n div 10"]
  by (subst digits.simps) (cases "digits (n div 10)"; simp)

lemma dash_notin_digits: "0x2D \<notin> set (digits n)"
proof (induction n rule: digits.induct)
  case (1 n)
  show ?case
  proof (cases "n < 10")
    case True
    then show ?thesis using digit_not_dash [of n] by (subst digits.simps) auto
  next
    case False
    with 1 digit_not_dash [of "n mod 10"] show ?thesis
      by (subst digits.simps) auto
  qed
qed

lemma digits_inj: "digits m = digits n \<Longrightarrow> m = n"
proof (induction m arbitrary: n rule: digits.induct)
  case (1 m)
  show ?case
  proof (cases "m < 10")
    case True
    then have dm: "digits m = [digit m]" by (subst digits.simps) simp
    have "n < 10"
    proof (rule ccontr)
      assume "\<not> n < 10"
      then have "2 \<le> length (digits n)" by (rule length_digits_big)
      with dm "1.prems" show False by simp
    qed
    then have "digits n = [digit n]" by (subst digits.simps) simp
    with dm "1.prems" have "digit m = digit n" by simp
    with True \<open>n < 10\<close> show ?thesis by (rule digit_inj)
  next
    case False
    then have dm: "digits m = digits (m div 10) @ [digit (m mod 10)]"
      by (subst digits.simps) simp
    have big: "\<not> n < 10"
    proof
      assume "n < 10"
      then have "digits n = [digit n]" by (subst digits.simps) simp
      moreover from False have "2 \<le> length (digits m)" by (rule length_digits_big)
      ultimately show False using "1.prems" by simp
    qed
    then have dn: "digits n = digits (n div 10) @ [digit (n mod 10)]"
      by (subst digits.simps) simp
    from dm dn "1.prems" have
      q: "digits (m div 10) = digits (n div 10)" and r: "digit (m mod 10) = digit (n mod 10)"
      by simp_all
    from "1.IH" [OF False q] have "m div 10 = n div 10" .
    moreover have "m mod 10 = n mod 10"
      by (rule digit_inj [OF _ _ r]) simp_all
    ultimately show ?thesis by (metis div_mult_mod_eq)
  qed
qed

lemma split_at_first:
  "c \<notin> set xs \<Longrightarrow> c \<notin> set xs' \<Longrightarrow> xs @ c # ys = xs' @ c # ys' \<Longrightarrow> xs = xs' \<and> ys = ys'"
proof (induction xs arbitrary: xs')
  case Nil
  then show ?case by (cases xs') auto
next
  case (Cons x xs)
  then show ?case by (cases xs') auto
qed

lemma digits_dash_inj:
  "digits m @ 0x2D # r = digits n @ 0x2D # r' \<Longrightarrow> m = n \<and> r = r'"
proof -
  assume eq: "digits m @ 0x2D # r = digits n @ 0x2D # r'"
  have "digits m = digits n \<and> r = r'"
    by (rule split_at_first [OF dash_notin_digits dash_notin_digits eq])
  then show ?thesis by (blast dest: digits_inj)
qed

lemma digits_no_dash_inside: "digits n \<noteq> xs @ 0x2D # ys"
proof
  assume "digits n = xs @ 0x2D # ys"
  then have "0x2D \<in> set (digits n)" by simp
  with dash_notin_digits show False by blast
qed

lemma decimal_dash_inj:
  "decimal a @ 0x2D # r = decimal b @ 0x2D # r' \<Longrightarrow> a = b \<and> r = r'"
proof -
  assume eq: "decimal a @ 0x2D # r = decimal b @ 0x2D # r'"
  consider "a < 0" "b < 0" | "a < 0" "\<not> b < 0" | "\<not> a < 0" "b < 0" | "\<not> a < 0" "\<not> b < 0"
    by blast
  then show ?thesis
  proof cases
    case 1
    with eq have "digits (nat (- a)) @ 0x2D # r = digits (nat (- b)) @ 0x2D # r'"
      by (simp add: decimal_def)
    then have "nat (- a) = nat (- b) \<and> r = r'" by (rule digits_dash_inj)
    with 1 show ?thesis by arith
  next
    case 2
    with eq have "0x2D # (digits (nat (- a)) @ 0x2D # r) = digits (nat b) @ 0x2D # r'"
      by (simp add: decimal_def)
    then have False
      using digits_nonempty [of "nat b"] dash_notin_digits [of "nat b"]
      by (cases "digits (nat b)") auto
    then show ?thesis ..
  next
    case 3
    with eq have "digits (nat a) @ 0x2D # r = 0x2D # (digits (nat (- b)) @ 0x2D # r')"
      by (simp add: decimal_def)
    then have False
      using digits_nonempty [of "nat a"] dash_notin_digits [of "nat a"]
      by (cases "digits (nat a)") auto
    then show ?thesis ..
  next
    case 4
    with eq have "digits (nat a) @ 0x2D # r = digits (nat b) @ 0x2D # r'"
      by (simp add: decimal_def)
    then have "nat a = nat b \<and> r = r'" by (rule digits_dash_inj)
    with 4 show ?thesis by arith
  qed
qed

lemma decimal_no_dash_after: "decimal a \<noteq> decimal b @ 0x2D # r"
proof
  assume eq: "decimal a = decimal b @ 0x2D # r"
  have tail: "\<And>n xs ys. xs \<noteq> [] \<Longrightarrow> 0x2D # digits n \<noteq> xs @ 0x2D # ys"
  proof
    fix n and xs ys :: jsstring
    assume "xs \<noteq> []" and e: "0x2D # digits n = xs @ 0x2D # ys"
    then obtain x xs' where "xs = x # xs'" by (cases xs) auto
    with e have "digits n = xs' @ 0x2D # ys" by simp
    then show False by (simp add: digits_no_dash_inside)
  qed
  have ne: "decimal b \<noteq> []" by (simp add: decimal_def digits_nonempty)
  show False
  proof (cases "a < 0")
    case True
    with eq have "0x2D # digits (nat (- a)) = decimal b @ 0x2D # r" by (simp add: decimal_def)
    with tail [OF ne] show False by blast
  next
    case False
    with eq have "digits (nat a) = decimal b @ 0x2D # r" by (simp add: decimal_def)
    then show False by (simp add: digits_no_dash_inside)
  qed
qed

lemma lit_dash: "lit ''-'' = [0x2D]"
  by (simp add: lit_def)

lemma new_id_inj:
  "new_id h j = new_id h k \<Longrightarrow>
     (Date_now h j, slice_2_8 (Math_random h j)) = (Date_now h k, slice_2_8 (Math_random h k))"
  using decimal_dash_inj [of "Date_now h j" "slice_2_8 (Math_random h j)"
      "Date_now h k" "slice_2_8 (Math_random h k)"]
  by (simp add: new_id_def lit_dash)

lemma welcome_id_not_new: "welcome_id h \<noteq> new_id h k"
  using decimal_no_dash_after [of "Date_now h 0" "Date_now h k" "slice_2_8 (Math_random h k)"]
  by (simp add: welcome_id_def new_id_def lit_dash)

subsection \<open>Identifiers and order of the conversation\<close>

lemma id_at_inj_on:
  assumes draws:
    "inj_on (\<lambda>k. (Date_now h k, slice_2_8 (Math_random h k))) {k. 0 < k \<and> k < n}"
  shows "inj_on (id_at h) {0..<n}"
proof (rule inj_onI)
  fix j k
  assume j: "j \<in> {0..<n}" and k: "k \<in> {0..<n}" and eq: "id_at h j = id_at h k"
  show "j = k"
  proof (cases "j = 0")
    case True
    show ?thesis
    proof (cases "k = 0")
      case True
      with \<open>j = 0\<close> show ?thesis by simp
    next
      case False
      with True eq welcome_id_not_new [of h k] show ?thesis by (simp add: id_at_def)
    qed
  next
    case False
    show ?thesis
    proof (cases "k = 0")
      case True
      with False eq welcome_id_not_new [of h j] show ?thesis by (simp add: id_at_def)
    next
      case pos: False
      with False eq have "new_id h j = new_id h k" by (simp add: id_at_def)
      then have "(Date_now h j, slice_2_8 (Math_random h j))
          = (Date_now h k, slice_2_8 (Math_random h k))" by (rule new_id_inj)
      moreover from False pos j k
      have "j \<in> {k. 0 < k \<and> k < n}" and "k \<in> {k. 0 < k \<and> k < n}" by simp_all
      ultimately show ?thesis using draws by (auto dest: inj_onD)
    qed
  qed
qed

lemma draws_inj_on:
  assumes ids: "inj_on (id_at h) {0..<n}"
  shows "inj_on (\<lambda>k. (Date_now h k, slice_2_8 (Math_random h k))) {k. 0 < k \<and> k < n}"
proof (rule inj_onI)
  fix j k
  assume j: "j \<in> {k. 0 < k \<and> k < n}" and k: "k \<in> {k. 0 < k \<and> k < n}"
    and eq: "(Date_now h j, slice_2_8 (Math_random h j))
               = (Date_now h k, slice_2_8 (Math_random h k))"
  from eq have "new_id h j = new_id h k" by (simp add: new_id_def)
  with j k have "id_at h j = id_at h k" by (simp add: id_at_def)
  moreover from j k have "j \<in> {0..<n}" and "k \<in> {0..<n}" by simp_all
  ultimately show "j = k" using ids by (auto dest: inj_onD)
qed

lemma distinct_ids_iff:
  "distinct (map msg_id (messages (run h evs))) \<longleftrightarrow>
     inj_on (\<lambda>k. (Date_now h k, slice_2_8 (Math_random h k)))
       {k. 0 < k \<and> k < length (messages (run h evs))}"
proof -
  have "distinct (map msg_id (messages (run h evs)))
      \<longleftrightarrow> inj_on (id_at h) {0..<length (messages (run h evs))}"
    using run_ids [of h evs] by (simp add: distinct_map)
  then show ?thesis using id_at_inj_on [of h] draws_inj_on [of h] by blast
qed

text \<open>
  C9, as stated, fails: an identifier is made of the clock and of six characters of a
  random number, and nothing keeps two messages from drawing the same pair. In the
  session below the backend answers with two messages, which \<^verbatim>\<open>forEach\<close> appends within
  the same millisecond and, on this host, with the same random text: they get the same
  identifier.
\<close>

theorem equal_draws_counterexample:
  "\<not> distinct (map msg_id (messages (run frozen_host
       [Change (lit ''hi''), KeyDown (lit ''Enter'') False,
        Settle 0 (Responded \<lparr>resp_status = 200, resp_text = Inr [],
          resp_json = Inr (JObj [(lit ''messages'',
            JArr [JObj [(lit ''content'', JStr (lit ''a''))],
                  JObj [(lit ''content'', JStr (lit ''b''))]])])\<rparr>)])))"
  by (simp add: run_def handleKeyDown_def sendMessage_def Let_def init_def addMessage_def
      trim_def WhiteSpace_def lit_def settle_def try_block_def resp_ok_def normalizer_def
      truthy_string_def as_array_def entry_def with_role_def String_of_def strict_eq_def
      non_nullish_def addMessages_def
      new_id_def frozen_host_def example_host_def)

text \<open>
  C9, amended: in every state reached from the initial one by any sequence of events,
  the identifiers of the conversation are pairwise distinct provided that no two of the
  calls of \<^verbatim>\<open>addMessage\<close> made so far (the positions from 1 up to the length of the
  conversation) drew the same pair of clock value and random text (after
  \<^verbatim>\<open>slice(2, 8)\<close>), and they are not distinct otherwise. Without any condition, the
  order of the conversation is the order of insertion: every later conversation extends
  the earlier one at its end.
\<close>

theorem ids_distinct_when_draws_differ:
  "(distinct (map msg_id (messages (run h evs))) \<longleftrightarrow>
      inj_on (\<lambda>k. (Date_now h k, slice_2_8 (Math_random h k)))
        {k. 0 < k \<and> k < length (messages (run h evs))}) \<and>
   prefix (messages (run h evs)) (messages (run h (evs @ later)))"
  using distinct_ids_iff [of h evs] run_prefix [of h evs later] by blast

theorem ids_distinct_when_draws_differ_witness:
  "length (messages (run example_host
       [Change (lit ''hi''), KeyDown (lit ''Enter'') False,
        Settle 0 (Responded \<lparr>resp_status = 200, resp_text = Inr [],
          resp_json = Inr (JObj [(lit ''messages'',
            JArr [JObj [(lit ''content'', JStr (lit ''a''))],
                  JObj [(lit ''content'', JStr (lit ''b''))]])])\<rparr>)])) = 4 \<and>
   inj_on (\<lambda>k. (Date_now example_host k, slice_2_8 (Math_random example_host k)))
     {k. 0 < k \<and> k < 4} \<and>
   distinct (map msg_id (messages (run example_host
       [Change (lit ''hi''), KeyDown (lit ''Enter'') False,
        Settle 0 (Responded \<lparr>resp_status = 200, resp_text = Inr [],
          resp_json = Inr (JObj [(lit ''messages'',
            JArr [JObj [(lit ''content'', JStr (lit ''a''))],
                  JObj [(lit ''content'', JStr (lit ''b''))]])])\<rparr>)]))) \<and>
   prefix
     (messages (run example_host [Change (lit ''hi''), KeyDown (lit ''Enter'') False]))
     (messages (run example_host
       ([Change (lit ''hi''), KeyDown (lit ''Enter'') False] @
        [Settle 0 (Responded \<lparr>resp_status = 200, resp_text = Inr [],
          resp_json = Inr (JObj [(lit ''messages'',
            JArr [JObj [(lit ''content'', JStr (lit ''a''))],
                  JObj [(lit ''content'', JStr (lit ''b''))]])])\<rparr>)]))) \<and>
   \<not> inj_on (\<lambda>k. (Date_now frozen_host k, slice_2_8 (Math_random frozen_host k)))
     {k. 0 < k \<and> k < 4} \<and>
   \<not> distinct (map msg_id (messages (run frozen_host
       [Change (lit ''hi''), KeyDown (lit ''Enter'') False,
        Settle 0 (Responded \<lparr>resp_status = 200, resp_text = Inr [],
          resp_json = Inr (JObj [(lit ''messages'',
            JArr [JObj [(lit ''content'', JStr (lit ''a''))],
                  JObj [(lit ''content'', JStr (lit ''b''))]])])\<rparr>)])))"
proof -
  let ?evs = "[Change (lit ''hi''), KeyDown (lit ''Enter'') False,
        Settle 0 (Responded \<lparr>resp_status = 200, resp_text = Inr [],
          resp_json = Inr (JObj [(lit ''messages'',
            JArr [JObj [(lit ''content'', JStr (lit ''a''))],
                  JObj [(lit ''content'', JStr (lit ''b''))]])])\<rparr>)] :: int event list"
  have len: "length (messages (run example_host ?evs)) = 4"
    by (simp add: run_def handleKeyDown_def sendMessage_def Let_def init_def addMessage_def
      trim_def WhiteSpace_def lit_def settle_def try_block_def resp_ok_def normalizer_def
      truthy_string_def as_array_def entry_def with_role_def String_of_def strict_eq_def
      non_nullish_def addMessages_def)
  have len': "length (messages (run frozen_host ?evs)) = 4"
    by (simp add: run_def handleKeyDown_def sendMessage_def Let_def init_def addMessage_def
      trim_def WhiteSpace_def lit_def settle_def try_block_def resp_ok_def normalizer_def
      truthy_string_def as_array_def entry_def with_role_def String_of_def strict_eq_def
      non_nullish_def addMessages_def)
  have draws: "inj_on (\<lambda>k. (Date_now example_host k, slice_2_8 (Math_random example_host k)))
      {k. 0 < k \<and> k < 4}"
    by (simp add: inj_on_def example_host_def)
  have "(1::nat) \<in> {k. 0 < k \<and> k < 4}" and "(2::nat) \<in> {k. 0 < k \<and> k < 4}"
    and "(Date_now frozen_host 1, slice_2_8 (Math_random frozen_host 1))
          = (Date_now frozen_host 2, slice_2_8 (Math_random frozen_host 2))"
    by (simp_all add: frozen_host_def example_host_def)
  then have frozen:
    "\<not> inj_on (\<lambda>k. (Date_now frozen_host k, slice_2_8 (Math_random frozen_host k)))
      {k. 0 < k \<and> k < 4}"
    by (auto dest: inj_onD)
  from ids_distinct_when_draws_differ
      [of example_host ?evs "[]"]
    ids_distinct_when_draws_differ
      [of example_host "[Change (lit ''hi''), KeyDown (lit ''Enter'') False]"
        "[Settle 0 (Responded \<lparr>resp_status = 200, resp_text = Inr [],
          resp_json = Inr (JObj [(lit ''messages'',
            JArr [JObj [(lit ''content'', JStr (lit ''a''))],
                  JObj [(lit ''content'', JStr (lit ''b''))]])])\<rparr>)]"]
    ids_distinct_when_draws_differ [of frozen_host ?evs "[]"]
    len len' draws frozen
  show ?thesis by simp
qed

subsection \<open>Roles of the conversation\<close>

text \<open>
  C10. In every state reached from the initial one by any sequence of events, every
  message of the conversation has the role \<^verbatim>\<open>user\<close>, \<^verbatim>\<open>assistant\<close> or \<^verbatim>\<open>system\<close>; and
  whatever the payload, every call of \<^verbatim>\<open>addMessage\<close> that the normalizer makes passes
  one of these three roles, an unrecognized or missing role being replaced by
  \<^verbatim>\<open>assistant\<close>.
\<close>

theorem roles_are_user_assistant_system:
  "set (map msg_role (messages (run h evs)))
     \<subseteq> {lit ''user'', lit ''assistant'', lit ''system''} \<and>
   set (map fst (fst (normalizer h data))) \<subseteq> {lit ''user'', lit ''assistant'', lit ''system''}"
  using run_roles [of h evs] normalizer_roles [of h data] by blast

theorem roles_are_user_assistant_system_witness:
  "map msg_role (messages (run example_host
       [Change (lit ''hi''), KeyDown (lit ''Enter'') False,
        Settle 0 (Responded \<lparr>resp_status = 200, resp_text = Inr [],
          resp_json = Inr (JObj [(lit ''messages'',
            JArr [JObj [(lit ''role'', JStr (lit ''admin'')), (lit ''content'', JStr (lit ''a''))],
                  JObj [(lit ''role'', JNum 7), (lit ''content'', JStr (lit ''b''))],
                  JObj [(lit ''content'', JStr (lit ''c''))]])])\<rparr>)]))
     = [lit ''assistant'', lit ''user'', lit ''assistant'', lit ''assistant'', lit ''assistant''] \<and>
   set (map msg_role (messages (run example_host
       [Change (lit ''hi''), KeyDown (lit ''Enter'') False,
        Settle 0 (Responded \<lparr>resp_status = 200, resp_text = Inr [],
          resp_json = Inr (JObj [(lit ''messages'',
            JArr [JObj [(lit ''role'', JStr (lit ''admin'')), (lit ''content'', JStr (lit ''a''))],
                  JObj [(lit ''role'', JNum 7), (lit ''content'', JStr (lit ''b''))],
                  JObj [(lit ''content'', JStr (lit ''c''))]])])\<rparr>)])))
     \<subseteq> {lit ''user'', lit ''assistant'', lit ''system''}"
proof -
  have roles: "map msg_role (messages (run example_host
       [Change (lit ''hi''), KeyDown (lit ''Enter'') False,
        Settle 0 (Responded \<lparr>resp_status = 200, resp_text = Inr [],
          resp_json = Inr (JObj [(lit ''messages'',
            JArr [JObj [(lit ''role'', JStr (lit ''admin'')), (lit ''content'', JStr (lit ''a''))],
                  JObj [(lit ''role'', JNum 7), (lit ''content'', JStr (lit ''b''))],
                  JObj [(lit ''content'', JStr (lit ''c''))]])])\<rparr>)]))
     = [lit ''assistant'', lit ''user'', lit ''assistant'', lit ''assistant'', lit ''assistant'']"
    by (simp add: run_def handleKeyDown_def sendMessage_def Let_def init_def addMessage_def
      trim_def WhiteSpace_def lit_def settle_def try_block_def resp_ok_def normalizer_def
      truthy_string_def as_array_def entry_def with_role_def String_of_def strict_eq_def
      non_nullish_def addMessages_def)
  from roles_are_user_assistant_system [of example_host _ JNull] roles show ?thesis by blast
qed

end
